theory Spec2Isabelle
  imports Main
begin

section \<open>The cross detector of cross.cpp\<close>

text \<open>
  The two functions of cross.cpp, \<open>is_cross\<close> and \<open>find_crosses\<close>, over the fixed
  \<open>ROWS\<close> by \<open>COLS\<close> grid of C \<open>int\<close>s.

  Indices and cell values are modelled as \<open>int\<close>: the only arithmetic of the source is
  \<open>row - i\<close>, \<open>row + i\<close>, \<open>col - i\<close>, \<open>col + i\<close>, \<open>i++\<close>, \<open>r++\<close> and \<open>c++\<close> on values
  between \<open>-1\<close> and \<open>16\<close>, so no machine integer can overflow, and signed indices keep
  the test \<open>row - i < 0\<close> meaningful.
\<close>

subsection \<open>Constants\<close>

definition ROWS :: int where
  "ROWS = 12"

definition COLS :: int where
  "COLS = 16"

definition ARM :: int where
  "ARM = 1"

subsection \<open>The grid\<close>

text \<open>
  The parameter \<open>int grid[ROWS][COLS]\<close> is a list of rows. The C type fixes the shape:
  \<open>grid_ok\<close> says that there are \<open>ROWS\<close> rows of \<open>COLS\<close> cells each.
\<close>

type_synonym grid = "int list list"

definition grid_ok :: "grid \<Rightarrow> bool" where
  "grid_ok grid \<longleftrightarrow> int (length grid) = ROWS \<and> (\<forall>row \<in> set grid. int (length row) = COLS)"

text \<open>
  The read \<open>grid[row][col]\<close>. It is checked against the extent of the array itself, not
  against the macros: a read outside the array is undefined behaviour in C++, and is
  \<open>None\<close> here.
\<close>

definition grid_at :: "grid \<Rightarrow> int \<Rightarrow> int \<Rightarrow> int option" where
  "grid_at grid row col =
     (if 0 \<le> row \<and> nat row < length grid \<and> 0 \<le> col \<and> nat col < length (grid ! nat row)
      then Some (grid ! nat row ! nat col)
      else None)"

text \<open>A centre that lies in \<open>[0, ROWS) \<times> [0, COLS)\<close>.\<close>

definition in_bounds :: "int \<Rightarrow> int \<Rightarrow> bool" where
  "in_bounds row col \<longleftrightarrow> 0 \<le> row \<and> row < ROWS \<and> 0 \<le> col \<and> col < COLS"

subsection \<open>is_cross\<close>

text \<open>
  The loop \<open>for (i = 1; i <= ARM; i++)\<close> of \<open>is_cross\<close>, entered with the current \<open>i\<close>.
  Each of the four tests is \<open>bound || cell != 1\<close>: the cell is read only when the bound
  test is false. The result is the returned \<open>int\<close>, or \<open>None\<close> when a cell outside the
  array is read.
\<close>

function is_cross_arms :: "grid \<Rightarrow> int \<Rightarrow> int \<Rightarrow> int \<Rightarrow> int option" where
  "is_cross_arms grid row col i =
     (if i \<le> ARM then
        (if row - i < 0 then Some 0 else
        (case grid_at grid (row - i) col of None \<Rightarrow> None | Some up \<Rightarrow>
        (if up \<noteq> 1 then Some 0 else
        (if row + i \<ge> ROWS then Some 0 else
        (case grid_at grid (row + i) col of None \<Rightarrow> None | Some down \<Rightarrow>
        (if down \<noteq> 1 then Some 0 else
        (if col - i < 0 then Some 0 else
        (case grid_at grid row (col - i) of None \<Rightarrow> None | Some left \<Rightarrow>
        (if left \<noteq> 1 then Some 0 else
        (if col + i \<ge> COLS then Some 0 else
        (case grid_at grid row (col + i) of None \<Rightarrow> None | Some right \<Rightarrow>
        (if right \<noteq> 1 then Some 0 else
         is_cross_arms grid row col (i + 1)))))))))))))
      else Some 1)"
  by pat_completeness auto
termination
  by (relation "measure (\<lambda>(grid, row, col, i). nat (ARM + 1 - i))") auto

declare is_cross_arms.simps [simp del]

text \<open>
  \<open>is_cross\<close> reads the centre before any bound is tested, then runs the loop from
  \<open>i = 1\<close>.
\<close>

definition is_cross :: "grid \<Rightarrow> int \<Rightarrow> int \<Rightarrow> int option" where
  "is_cross grid row col =
     (case grid_at grid row col of
        None \<Rightarrow> None
      | Some centre \<Rightarrow> if centre \<noteq> 1 then Some 0 else is_cross_arms grid row col 1)"

subsection \<open>find_crosses\<close>

text \<open>
  A local \<open>int\<close> variable of \<open>find_crosses\<close>. \<open>current_r\<close> is declared without an
  initialiser (\<open>int current_r, current_c = 0;\<close> initialises \<open>current_c\<close> only), so it
  holds no value until the first assignment: that is \<open>Indet\<close>.
\<close>

datatype cval = Indet | Val int

record locals =
  current_r :: cval
  current_c :: int
  found :: int

text \<open>
  The inner loop \<open>for (c = 0; c < COLS; c++)\<close>, entered with the current \<open>c\<close>. The
  condition \<open>if (is_cross(grid, r, c))\<close> holds when the returned \<open>int\<close> is not zero.
\<close>

function find_crosses_cols :: "grid \<Rightarrow> int \<Rightarrow> int \<Rightarrow> locals \<Rightarrow> locals option" where
  "find_crosses_cols grid r c s =
     (if c < COLS then
        (case is_cross grid r c of
           None \<Rightarrow> None
         | Some b \<Rightarrow>
             find_crosses_cols grid r (c + 1)
               (if b \<noteq> 0 then s\<lparr>current_r := Val r, current_c := c, found := 1\<rparr> else s))
      else Some s)"
  by pat_completeness auto
termination
  by (relation "measure (\<lambda>(grid, r, c, s). nat (COLS - c))") auto

declare find_crosses_cols.simps [simp del]

text \<open>The outer loop \<open>for (r = 0; r < ROWS; r++)\<close>, entered with the current \<open>r\<close>.\<close>

function find_crosses_rows :: "grid \<Rightarrow> int \<Rightarrow> locals \<Rightarrow> locals option" where
  "find_crosses_rows grid r s =
     (if r < ROWS then
        (case find_crosses_cols grid r 0 s of
           None \<Rightarrow> None
         | Some s' \<Rightarrow> find_crosses_rows grid (r + 1) s')
      else Some s)"
  by pat_completeness auto
termination
  by (relation "measure (\<lambda>(grid, r, s). nat (ROWS - r))") auto

declare find_crosses_rows.simps [simp del]

text \<open>
  \<open>find_crosses\<close>: the locals as declared, the two loops, and the vector built by three
  \<open>push_back\<close>s. The first element is \<open>Indet\<close> when \<open>current_r\<close> was never assigned.
\<close>

definition find_crosses :: "grid \<Rightarrow> cval list option" where
  "find_crosses grid =
     (case find_crosses_rows grid 0 \<lparr>current_r = Indet, current_c = 0, found = 0\<rparr> of
        None \<Rightarrow> None
      | Some s \<Rightarrow> Some [current_r s, Val (current_c s), Val (found s)])"

subsection \<open>The specification's vocabulary\<close>

text \<open>
  A cross as the specification words it: the centre is \<open>1\<close> and, for every arm distance
  \<open>i\<close> from \<open>1\<close> to \<open>ARM\<close>, the four cells at distance \<open>i\<close> are in bounds and equal
  to \<open>1\<close>. This definition follows the specification, not the source.
\<close>

definition cell_is_1 :: "grid \<Rightarrow> int \<Rightarrow> int \<Rightarrow> bool" where
  "cell_is_1 grid row col \<longleftrightarrow> in_bounds row col \<and> grid ! nat row ! nat col = 1"

definition cross_spec :: "grid \<Rightarrow> int \<Rightarrow> int \<Rightarrow> bool" where
  "cross_spec grid row col \<longleftrightarrow>
     grid ! nat row ! nat col = 1 \<and>
     (\<forall>i \<in> {1..ARM}.
        cell_is_1 grid (row - i) col \<and> cell_is_1 grid (row + i) col \<and>
        cell_is_1 grid row (col - i) \<and> cell_is_1 grid row (col + i))"

text \<open>
  The scan as the specification words it: every cell in row-major order, each match
  overwriting the coordinate and setting the flag. This definition follows the
  specification, not the source.
\<close>

definition row_major_cells :: "(int \<times> int) list" where
  "row_major_cells = concat (map (\<lambda>r. map (Pair r) [0..COLS - 1]) [0..ROWS - 1])"

definition scan_step :: "grid \<Rightarrow> locals \<Rightarrow> int \<times> int \<Rightarrow> locals" where
  "scan_step grid s cell =
     (if is_cross grid (fst cell) (snd cell) = Some 1
      then s\<lparr>current_r := Val (fst cell), current_c := snd cell, found := 1\<rparr>
      else s)"

definition scan_all :: "grid \<Rightarrow> locals" where
  "scan_all grid =
     foldl (scan_step grid) \<lparr>current_r = Indet, current_c = 0, found = 0\<rparr> row_major_cells"

subsection \<open>Counting the comparisons of a cell with 1\<close>

text \<open>
  The number of times a run evaluates a comparison \<open>grid[..][..] != 1\<close>. The functions
  below follow the control flow of the source functions above, branch by branch, and
  return the count in place of the result. The bound tests \<open>row - i < 0\<close>,
  \<open>row + i >= ROWS\<close>, \<open>col - i < 0\<close>, \<open>col + i >= COLS\<close> and the loop conditions are
  comparisons too; they are not counted here.
\<close>

function is_cross_arms_cmps :: "grid \<Rightarrow> int \<Rightarrow> int \<Rightarrow> int \<Rightarrow> nat" where
  "is_cross_arms_cmps grid row col i =
     (if i \<le> ARM then
        (if row - i < 0 then 0 else
        (case grid_at grid (row - i) col of None \<Rightarrow> 0 | Some up \<Rightarrow>
        (if up \<noteq> 1 then 1 else
        (if row + i \<ge> ROWS then 1 else
        (case grid_at grid (row + i) col of None \<Rightarrow> 1 | Some down \<Rightarrow>
        (if down \<noteq> 1 then 2 else
        (if col - i < 0 then 2 else
        (case grid_at grid row (col - i) of None \<Rightarrow> 2 | Some left \<Rightarrow>
        (if left \<noteq> 1 then 3 else
        (if col + i \<ge> COLS then 3 else
        (case grid_at grid row (col + i) of None \<Rightarrow> 3 | Some right \<Rightarrow>
        (if right \<noteq> 1 then 4 else
         4 + is_cross_arms_cmps grid row col (i + 1)))))))))))))
      else 0)"
  by pat_completeness auto
termination
  by (relation "measure (\<lambda>(grid, row, col, i). nat (ARM + 1 - i))") auto

declare is_cross_arms_cmps.simps [simp del]

definition is_cross_cmps :: "grid \<Rightarrow> int \<Rightarrow> int \<Rightarrow> nat" where
  "is_cross_cmps grid row col =
     (case grid_at grid row col of
        None \<Rightarrow> 0
      | Some centre \<Rightarrow> if centre \<noteq> 1 then 1 else 1 + is_cross_arms_cmps grid row col 1)"

function find_crosses_cols_cmps :: "grid \<Rightarrow> int \<Rightarrow> int \<Rightarrow> nat" where
  "find_crosses_cols_cmps grid r c =
     (if c < COLS then
        (case is_cross grid r c of
           None \<Rightarrow> is_cross_cmps grid r c
         | Some b \<Rightarrow> is_cross_cmps grid r c + find_crosses_cols_cmps grid r (c + 1))
      else 0)"
  by pat_completeness auto
termination
  by (relation "measure (\<lambda>(grid, r, c). nat (COLS - c))") auto

declare find_crosses_cols_cmps.simps [simp del]

function find_crosses_rows_cmps :: "grid \<Rightarrow> int \<Rightarrow> locals \<Rightarrow> nat" where
  "find_crosses_rows_cmps grid r s =
     (if r < ROWS then
        (case find_crosses_cols grid r 0 s of
           None \<Rightarrow> find_crosses_cols_cmps grid r 0
         | Some s' \<Rightarrow> find_crosses_cols_cmps grid r 0 + find_crosses_rows_cmps grid (r + 1) s')
      else 0)"
  by pat_completeness auto
termination
  by (relation "measure (\<lambda>(grid, r, s). nat (ROWS - r))") auto

declare find_crosses_rows_cmps.simps [simp del]

definition find_crosses_cmps :: "grid \<Rightarrow> nat" where
  "find_crosses_cmps grid =
     find_crosses_rows_cmps grid 0 \<lparr>current_r = Indet, current_c = 0, found = 0\<rparr>"

subsection \<open>Concrete grids\<close>

text \<open>The assignment \<open>grid[r][c] = v\<close> a caller makes while it fills the grid.\<close>

definition set_cell :: "grid \<Rightarrow> nat \<Rightarrow> nat \<Rightarrow> int \<Rightarrow> grid" where
  "set_cell grid r c v = grid[r := (grid ! r)[c := v]]"

definition zero_grid :: grid where
  "zero_grid = replicate 12 (replicate 16 0)"

definition ones_grid :: grid where
  "ones_grid = replicate 12 (replicate 16 1)"

text \<open>All zeros except \<open>grid[0][0] = 1\<close>.\<close>

definition corner_grid :: grid where
  "corner_grid = set_cell zero_grid 0 0 1"

text \<open>All zeros except the cross centred at \<open>(5, 8)\<close>.\<close>

definition plus_grid :: grid where
  "plus_grid =
     set_cell (set_cell (set_cell (set_cell (set_cell zero_grid 5 8 1) 4 8 1) 6 8 1) 5 7 1) 5 9 1"

text \<open>The cross centred at \<open>(5, 8)\<close> and a second, disjoint one centred at \<open>(2, 3)\<close>.\<close>

definition two_plus_grid :: grid where
  "two_plus_grid =
     set_cell (set_cell (set_cell (set_cell (set_cell plus_grid 2 3 1) 1 3 1) 3 3 1) 2 2 1) 2 4 1"

text \<open>All ones except a centre of \<open>2\<close> at \<open>(5, 8)\<close>: not zero, and not \<open>1\<close>.\<close>

definition two_centre_grid :: grid where
  "two_centre_grid = set_cell ones_grid 5 8 2"

section \<open>Reading the grid\<close>

lemma grid_at_in:
  "grid_ok grid \<Longrightarrow> in_bounds row col \<Longrightarrow> grid_at grid row col = Some (grid ! nat row ! nat col)"
  by (auto simp: grid_ok_def in_bounds_def grid_at_def ROWS_def COLS_def)

lemma grid_at_out:
  "grid_ok grid \<Longrightarrow> \<not> in_bounds row col \<Longrightarrow> grid_at grid row col = None"
  by (auto simp: grid_ok_def in_bounds_def grid_at_def ROWS_def COLS_def)

lemma grid_at_is_1:
  "grid_ok grid \<Longrightarrow> grid_at grid row col = Some 1 \<longleftrightarrow> cell_is_1 grid row col"
  using grid_at_in [of grid row col] grid_at_out [of grid row col]
  by (cases "in_bounds row col") (auto simp: cell_is_1_def)

section \<open>is_cross in closed form\<close>

lemma is_cross_arms_past: "ARM < i \<Longrightarrow> is_cross_arms grid row col i = Some 1"
  by (simp add: is_cross_arms.simps [of grid row col i])

lemma is_cross_eq:
  assumes "grid_ok grid" "in_bounds row col"
  shows "is_cross grid row col =
     Some (if grid_at grid row col = Some 1 \<and>
              grid_at grid (row - 1) col = Some 1 \<and> grid_at grid (row + 1) col = Some 1 \<and>
              grid_at grid row (col - 1) = Some 1 \<and> grid_at grid row (col + 1) = Some 1
           then 1 else 0)"
proof -
  have up: "grid_at grid (row - 1) col =
      (if row - 1 < 0 then None else Some (grid ! nat (row - 1) ! nat col))"
    using assms grid_at_in [of grid "row - 1" col] grid_at_out [of grid "row - 1" col]
    by (auto simp: in_bounds_def)
  have down: "grid_at grid (row + 1) col =
      (if row + 1 \<ge> ROWS then None else Some (grid ! nat (row + 1) ! nat col))"
    using assms grid_at_in [of grid "row + 1" col] grid_at_out [of grid "row + 1" col]
    by (auto simp: in_bounds_def)
  have left: "grid_at grid row (col - 1) =
      (if col - 1 < 0 then None else Some (grid ! nat row ! nat (col - 1)))"
    using assms grid_at_in [of grid row "col - 1"] grid_at_out [of grid row "col - 1"]
    by (auto simp: in_bounds_def)
  have right: "grid_at grid row (col + 1) =
      (if col + 1 \<ge> COLS then None else Some (grid ! nat row ! nat (col + 1)))"
    using assms grid_at_in [of grid row "col + 1"] grid_at_out [of grid row "col + 1"]
    by (auto simp: in_bounds_def)
  have two: "is_cross_arms grid row col 2 = Some 1"
    by (rule is_cross_arms_past) (simp add: ARM_def)
  show ?thesis
    unfolding is_cross_def is_cross_arms.simps [of grid row col 1] up down left right
    using two grid_at_in [OF assms]
    by (simp add: ARM_def)
qed

lemma is_cross_01:
  assumes "grid_ok grid" "in_bounds row col"
  shows "is_cross grid row col = Some 0 \<or> is_cross grid row col = Some 1"
  using is_cross_eq [OF assms] by (simp split: if_splits)

lemma cross_spec_eq:
  "cross_spec grid row col \<longleftrightarrow>
     grid ! nat row ! nat col = 1 \<and>
     cell_is_1 grid (row - 1) col \<and> cell_is_1 grid (row + 1) col \<and>
     cell_is_1 grid row (col - 1) \<and> cell_is_1 grid row (col + 1)"
  by (simp add: cross_spec_def ARM_def)

lemma is_cross_iff_spec:
  assumes "grid_ok grid" "in_bounds row col"
  shows "is_cross grid row col = Some 1 \<longleftrightarrow> cross_spec grid row col"
  using is_cross_eq [OF assms] grid_at_in [OF assms]
  by (simp add: cross_spec_eq grid_at_is_1 [OF assms(1)])

section \<open>The concrete grids\<close>

lemmas grid_defs =
  zero_grid_def ones_grid_def corner_grid_def plus_grid_def two_plus_grid_def
  two_centre_grid_def set_cell_def

lemmas const_defs = ROWS_def COLS_def ARM_def

lemmas run_defs =
  find_crosses_def find_crosses_rows.simps find_crosses_cols.simps is_cross_def
  is_cross_arms.simps grid_at_def const_defs

lemma grid_ok_zero_grid: "grid_ok zero_grid"
  by (simp add: grid_ok_def zero_grid_def const_defs)

lemma grid_ok_ones_grid: "grid_ok ones_grid"
  by (simp add: grid_ok_def ones_grid_def const_defs)

lemma grid_ok_set_cell:
  assumes "grid_ok grid"
  shows "grid_ok (set_cell grid r c v)"
proof (cases "r < length grid")
  case True
  then have "grid ! r \<in> set grid"
    by simp
  then have "int (length ((grid ! r)[c := v])) = COLS"
    using assms by (simp add: grid_ok_def)
  moreover have "set (grid[r := (grid ! r)[c := v]]) \<subseteq> insert ((grid ! r)[c := v]) (set grid)"
    by (rule set_update_subset_insert)
  ultimately show ?thesis
    using assms unfolding grid_ok_def set_cell_def by auto
next
  case False
  then show ?thesis
    using assms by (simp add: set_cell_def list_update_beyond)
qed

lemma grid_ok_corner_grid: "grid_ok corner_grid"
  unfolding corner_grid_def by (intro grid_ok_set_cell grid_ok_zero_grid)

lemma grid_ok_plus_grid: "grid_ok plus_grid"
  unfolding plus_grid_def by (intro grid_ok_set_cell grid_ok_zero_grid)

lemma grid_ok_two_plus_grid: "grid_ok two_plus_grid"
  unfolding two_plus_grid_def by (intro grid_ok_set_cell grid_ok_plus_grid)

lemma grid_ok_two_centre_grid: "grid_ok two_centre_grid"
  unfolding two_centre_grid_def by (intro grid_ok_set_cell grid_ok_ones_grid)

lemma grid_at_set_cell:
  "r < length grid \<Longrightarrow> c < length (grid ! r) \<Longrightarrow>
   grid_at (set_cell grid r c v) row col =
     (if row = int r \<and> col = int c then Some v else grid_at grid row col)"
  by (auto simp: grid_at_def set_cell_def nth_list_update)

section \<open>Cells of the concrete grids\<close>

lemma length_set_cell [simp]: "length (set_cell grid r c v) = length grid"
  by (simp add: set_cell_def)

lemma length_nth_set_cell [simp]: "length (set_cell grid r c v ! k) = length (grid ! k)"
  by (cases "r < length grid"; cases "k = r") (simp_all add: set_cell_def list_update_beyond)

lemma length_zero_grid [simp]: "length zero_grid = 12"
  by (simp add: zero_grid_def)

lemma length_nth_zero_grid [simp]: "k < 12 \<Longrightarrow> length (zero_grid ! k) = 16"
  by (simp add: zero_grid_def)

lemma nth_zero_grid:
  assumes "in_bounds row col"
  shows "zero_grid ! nat row ! nat col = 0"
proof -
  have "nat row < 12" "nat col < 16"
    using assms by (auto simp: in_bounds_def const_defs)
  then show ?thesis
    by (simp add: zero_grid_def)
qed

lemma grid_at_zero_grid:
  "grid_at zero_grid row col = (if in_bounds row col then Some 0 else None)"
  by (auto simp: grid_at_def zero_grid_def in_bounds_def const_defs)

lemma grid_at_plus_grid:
  "grid_at plus_grid row col =
     (if (row, col) \<in> {(5, 8), (4, 8), (6, 8), (5, 7), (5, 9)} then Some 1
      else grid_at zero_grid row col)"
  by (simp add: plus_grid_def grid_at_set_cell)

lemma plus_grid_only_cross:
  assumes "in_bounds r c" "is_cross plus_grid r c = Some 1"
  shows "r = 5 \<and> c = 8"
  using assms(2) unfolding is_cross_eq [OF grid_ok_plus_grid assms(1)]
  by (simp add: grid_at_plus_grid grid_at_zero_grid split: if_splits) arith

lemma zero_grid_no_cross:
  assumes "in_bounds r c"
  shows "is_cross zero_grid r c \<noteq> Some 1"
  using is_cross_eq [OF grid_ok_zero_grid assms] assms
  by (simp add: grid_at_zero_grid)

section \<open>The two loops of find_crosses\<close>

text \<open>
  The inner loop from column \<open>c\<close> on: it returns, and either the rest of the row holds
  no cross and the locals are unchanged, or the locals hold the last cross of the row.
\<close>

lemma find_crosses_cols_scan:
  assumes "grid_ok grid" "0 \<le> r" "r < ROWS" "0 \<le> c"
  shows "\<exists>s'. find_crosses_cols grid r c s = Some s' \<and>
     ((\<forall>c'. c \<le> c' \<and> c' < COLS \<longrightarrow> is_cross grid r c' \<noteq> Some 1) \<and> s' = s \<or>
      (\<exists>m. c \<le> m \<and> m < COLS \<and> is_cross grid r m = Some 1 \<and>
           (\<forall>c'. m < c' \<and> c' < COLS \<longrightarrow> is_cross grid r c' \<noteq> Some 1) \<and>
           s' = \<lparr>current_r = Val r, current_c = m, found = 1\<rparr>))"
  using assms
proof (induction grid r c s rule: find_crosses_cols.induct)
  case (1 grid r c s)
  show ?case
  proof (cases "c < COLS")
    case False
    then have "\<forall>c'. c \<le> c' \<and> c' < COLS \<longrightarrow> is_cross grid r c' \<noteq> Some 1"
      by auto
    then show ?thesis
      using False by (simp add: find_crosses_cols.simps [of grid r c s])
  next
    case True
    have inb: "in_bounds r c"
      using True "1.prems" by (simp add: in_bounds_def)
    let ?hit = "s\<lparr>current_r := Val r, current_c := c, found := 1\<rparr>"
    have hit: "?hit = \<lparr>current_r = Val r, current_c = c, found = 1\<rparr>"
      by simp
    have later: "0 \<le> c + 1"
      using "1.prems" by simp
    from is_cross_01 [OF "1.prems"(1) inb] show ?thesis
    proof
      assume miss: "is_cross grid r c = Some 0"
      have step: "find_crosses_cols grid r c s = find_crosses_cols grid r (c + 1) s"
        using True miss by (simp add: find_crosses_cols.simps [of grid r c s])
      from "1.IH" [OF True miss "1.prems"(1,2,3) later]
      obtain s' where s': "find_crosses_cols grid r (c + 1) s = Some s'"
        and d: "(\<forall>c'. c + 1 \<le> c' \<and> c' < COLS \<longrightarrow> is_cross grid r c' \<noteq> Some 1) \<and> s' = s \<or>
          (\<exists>m. c + 1 \<le> m \<and> m < COLS \<and> is_cross grid r m = Some 1 \<and>
           (\<forall>c'. m < c' \<and> c' < COLS \<longrightarrow> is_cross grid r c' \<noteq> Some 1) \<and>
           s' = \<lparr>current_r = Val r, current_c = m, found = 1\<rparr>)"
        by auto
      have res: "find_crosses_cols grid r c s = Some s'"
        using step s' by simp
      from d show ?thesis
      proof
        assume a: "(\<forall>c'. c + 1 \<le> c' \<and> c' < COLS \<longrightarrow> is_cross grid r c' \<noteq> Some 1) \<and> s' = s"
        have "\<forall>c'. c \<le> c' \<and> c' < COLS \<longrightarrow> is_cross grid r c' \<noteq> Some 1"
        proof (intro allI impI)
          fix c' assume "c \<le> c' \<and> c' < COLS"
          then have "c' = c \<or> (c + 1 \<le> c' \<and> c' < COLS)" by arith
          then show "is_cross grid r c' \<noteq> Some 1"
            using a miss by auto
        qed
        then show ?thesis using res a by simp
      next
        assume "\<exists>m. c + 1 \<le> m \<and> m < COLS \<and> is_cross grid r m = Some 1 \<and>
           (\<forall>c'. m < c' \<and> c' < COLS \<longrightarrow> is_cross grid r c' \<noteq> Some 1) \<and>
           s' = \<lparr>current_r = Val r, current_c = m, found = 1\<rparr>"
        then obtain m where m: "c + 1 \<le> m" "m < COLS" "is_cross grid r m = Some 1"
           "\<forall>c'. m < c' \<and> c' < COLS \<longrightarrow> is_cross grid r c' \<noteq> Some 1"
           "s' = \<lparr>current_r = Val r, current_c = m, found = 1\<rparr>"
          by blast
        have "c \<le> m" using m(1) by simp
        then have "\<exists>m. c \<le> m \<and> m < COLS \<and> is_cross grid r m = Some 1 \<and>
           (\<forall>c'. m < c' \<and> c' < COLS \<longrightarrow> is_cross grid r c' \<noteq> Some 1) \<and>
           s' = \<lparr>current_r = Val r, current_c = m, found = 1\<rparr>"
          using m(2-5) by (intro exI [of _ m]) simp
        then show ?thesis using res by simp
      qed
    next
      assume match: "is_cross grid r c = Some 1"
      have step: "find_crosses_cols grid r c s = find_crosses_cols grid r (c + 1) ?hit"
        using True match by (simp add: find_crosses_cols.simps [of grid r c s])
      from "1.IH" [OF True match "1.prems"(1,2,3) later]
      obtain s' where s': "find_crosses_cols grid r (c + 1) ?hit = Some s'"
        and d: "(\<forall>c'. c + 1 \<le> c' \<and> c' < COLS \<longrightarrow> is_cross grid r c' \<noteq> Some 1) \<and> s' = ?hit \<or>
          (\<exists>m. c + 1 \<le> m \<and> m < COLS \<and> is_cross grid r m = Some 1 \<and>
           (\<forall>c'. m < c' \<and> c' < COLS \<longrightarrow> is_cross grid r c' \<noteq> Some 1) \<and>
           s' = \<lparr>current_r = Val r, current_c = m, found = 1\<rparr>)"
        by auto
      have res: "find_crosses_cols grid r c s = Some s'"
        using step s' by simp
      from d show ?thesis
      proof
        assume a: "(\<forall>c'. c + 1 \<le> c' \<and> c' < COLS \<longrightarrow> is_cross grid r c' \<noteq> Some 1) \<and> s' = ?hit"
        have "\<forall>c'. c < c' \<and> c' < COLS \<longrightarrow> is_cross grid r c' \<noteq> Some 1"
          using a by simp
        moreover have "s' = \<lparr>current_r = Val r, current_c = c, found = 1\<rparr>"
          using a hit by simp
        ultimately have "\<exists>m. c \<le> m \<and> m < COLS \<and> is_cross grid r m = Some 1 \<and>
           (\<forall>c'. m < c' \<and> c' < COLS \<longrightarrow> is_cross grid r c' \<noteq> Some 1) \<and>
           s' = \<lparr>current_r = Val r, current_c = m, found = 1\<rparr>"
          using True match by (intro exI [of _ c]) simp
        then show ?thesis using res by simp
      next
        assume "\<exists>m. c + 1 \<le> m \<and> m < COLS \<and> is_cross grid r m = Some 1 \<and>
           (\<forall>c'. m < c' \<and> c' < COLS \<longrightarrow> is_cross grid r c' \<noteq> Some 1) \<and>
           s' = \<lparr>current_r = Val r, current_c = m, found = 1\<rparr>"
        then obtain m where m: "c + 1 \<le> m" "m < COLS" "is_cross grid r m = Some 1"
           "\<forall>c'. m < c' \<and> c' < COLS \<longrightarrow> is_cross grid r c' \<noteq> Some 1"
           "s' = \<lparr>current_r = Val r, current_c = m, found = 1\<rparr>"
          by blast
        have "c \<le> m" using m(1) by simp
        then have "\<exists>m. c \<le> m \<and> m < COLS \<and> is_cross grid r m = Some 1 \<and>
           (\<forall>c'. m < c' \<and> c' < COLS \<longrightarrow> is_cross grid r c' \<noteq> Some 1) \<and>
           s' = \<lparr>current_r = Val r, current_c = m, found = 1\<rparr>"
          using m(2-5) by (intro exI [of _ m]) simp
        then show ?thesis using res by simp
      qed
    qed
  qed
qed

text \<open>
  The outer loop from row \<open>r\<close> on: it returns, and either no cell from row \<open>r\<close> on is a
  cross and the locals are unchanged, or the locals hold the cross after which, in
  row-major order, there is no other.
\<close>

lemma find_crosses_rows_scan:
  assumes "grid_ok grid" "0 \<le> r"
  shows "\<exists>s'. find_crosses_rows grid r s = Some s' \<and>
     ((\<forall>r' c'. r \<le> r' \<and> in_bounds r' c' \<longrightarrow> is_cross grid r' c' \<noteq> Some 1) \<and> s' = s \<or>
      (\<exists>m n. r \<le> m \<and> in_bounds m n \<and> is_cross grid m n = Some 1 \<and>
           (\<forall>r' c'. in_bounds r' c' \<and> (m < r' \<or> r' = m \<and> n < c') \<longrightarrow>
              is_cross grid r' c' \<noteq> Some 1) \<and>
           s' = \<lparr>current_r = Val m, current_c = n, found = 1\<rparr>))"
  using assms
proof (induction grid r s rule: find_crosses_rows.induct)
  case (1 grid r s)
  show ?case
  proof (cases "r < ROWS")
    case False
    then have "\<forall>r' c'. r \<le> r' \<and> in_bounds r' c' \<longrightarrow> is_cross grid r' c' \<noteq> Some 1"
      by (auto simp: in_bounds_def)
    then show ?thesis
      using False by (simp add: find_crosses_rows.simps [of grid r s])
  next
    case True
    from find_crosses_cols_scan [OF "1.prems"(1,2) True, of 0 s]
    obtain s1 where s1: "find_crosses_cols grid r 0 s = Some s1"
      and row: "(\<forall>c'. 0 \<le> c' \<and> c' < COLS \<longrightarrow> is_cross grid r c' \<noteq> Some 1) \<and> s1 = s \<or>
        (\<exists>n. 0 \<le> n \<and> n < COLS \<and> is_cross grid r n = Some 1 \<and>
           (\<forall>c'. n < c' \<and> c' < COLS \<longrightarrow> is_cross grid r c' \<noteq> Some 1) \<and>
           s1 = \<lparr>current_r = Val r, current_c = n, found = 1\<rparr>)"
      by auto
    have step: "find_crosses_rows grid r s = find_crosses_rows grid (r + 1) s1"
      using True s1 by (simp add: find_crosses_rows.simps [of grid r s])
    have next_row: "0 \<le> r + 1"
      using "1.prems" by simp
    from "1.IH" [OF True s1 "1.prems"(1) next_row]
    obtain s' where s': "find_crosses_rows grid (r + 1) s1 = Some s'"
      and rest: "(\<forall>r' c'. r + 1 \<le> r' \<and> in_bounds r' c' \<longrightarrow> is_cross grid r' c' \<noteq> Some 1) \<and> s' = s1 \<or>
        (\<exists>m n. r + 1 \<le> m \<and> in_bounds m n \<and> is_cross grid m n = Some 1 \<and>
           (\<forall>r' c'. in_bounds r' c' \<and> (m < r' \<or> r' = m \<and> n < c') \<longrightarrow>
              is_cross grid r' c' \<noteq> Some 1) \<and>
           s' = \<lparr>current_r = Val m, current_c = n, found = 1\<rparr>)"
      by auto
    have res: "find_crosses_rows grid r s = Some s'"
      using step s' by simp
    from rest show ?thesis
    proof
      assume below: "(\<forall>r' c'. r + 1 \<le> r' \<and> in_bounds r' c' \<longrightarrow> is_cross grid r' c' \<noteq> Some 1) \<and> s' = s1"
      from row show ?thesis
      proof
        assume here: "(\<forall>c'. 0 \<le> c' \<and> c' < COLS \<longrightarrow> is_cross grid r c' \<noteq> Some 1) \<and> s1 = s"
        have "\<forall>r' c'. r \<le> r' \<and> in_bounds r' c' \<longrightarrow> is_cross grid r' c' \<noteq> Some 1"
        proof (intro allI impI)
          fix r' c' assume a: "r \<le> r' \<and> in_bounds r' c'"
          then have "r' = r \<or> r + 1 \<le> r'" by arith
          then show "is_cross grid r' c' \<noteq> Some 1"
            using a here below by (auto simp: in_bounds_def)
        qed
        then show ?thesis using res here below by simp
      next
        assume "\<exists>n. 0 \<le> n \<and> n < COLS \<and> is_cross grid r n = Some 1 \<and>
           (\<forall>c'. n < c' \<and> c' < COLS \<longrightarrow> is_cross grid r c' \<noteq> Some 1) \<and>
           s1 = \<lparr>current_r = Val r, current_c = n, found = 1\<rparr>"
        then obtain n where n: "0 \<le> n" "n < COLS" "is_cross grid r n = Some 1"
          "\<forall>c'. n < c' \<and> c' < COLS \<longrightarrow> is_cross grid r c' \<noteq> Some 1"
          "s1 = \<lparr>current_r = Val r, current_c = n, found = 1\<rparr>"
          by blast
        have inb: "in_bounds r n"
          using n(1,2) True "1.prems"(2) by (simp add: in_bounds_def)
        have last: "\<forall>r' c'. in_bounds r' c' \<and> (r < r' \<or> r' = r \<and> n < c') \<longrightarrow>
              is_cross grid r' c' \<noteq> Some 1"
        proof (intro allI impI)
          fix r' c' assume a: "in_bounds r' c' \<and> (r < r' \<or> r' = r \<and> n < c')"
          then have "r + 1 \<le> r' \<or> (r' = r \<and> n < c' \<and> c' < COLS)"
            by (auto simp: in_bounds_def)
          then show "is_cross grid r' c' \<noteq> Some 1"
            using a n(4) below by auto
        qed
        have "\<exists>m k. r \<le> m \<and> in_bounds m k \<and> is_cross grid m k = Some 1 \<and>
           (\<forall>r' c'. in_bounds r' c' \<and> (m < r' \<or> r' = m \<and> k < c') \<longrightarrow>
              is_cross grid r' c' \<noteq> Some 1) \<and>
           s' = \<lparr>current_r = Val m, current_c = k, found = 1\<rparr>"
          using inb n(3,5) last below by (intro exI [of _ r] exI [of _ n]) simp
        then show ?thesis using res by simp
      qed
    next
      assume "\<exists>m n. r + 1 \<le> m \<and> in_bounds m n \<and> is_cross grid m n = Some 1 \<and>
           (\<forall>r' c'. in_bounds r' c' \<and> (m < r' \<or> r' = m \<and> n < c') \<longrightarrow>
              is_cross grid r' c' \<noteq> Some 1) \<and>
           s' = \<lparr>current_r = Val m, current_c = n, found = 1\<rparr>"
      then obtain m n where mn: "r + 1 \<le> m" "in_bounds m n" "is_cross grid m n = Some 1"
          "\<forall>r' c'. in_bounds r' c' \<and> (m < r' \<or> r' = m \<and> n < c') \<longrightarrow>
              is_cross grid r' c' \<noteq> Some 1"
          "s' = \<lparr>current_r = Val m, current_c = n, found = 1\<rparr>"
        by blast
      have "r \<le> m" using mn(1) by simp
      then have "\<exists>m k. r \<le> m \<and> in_bounds m k \<and> is_cross grid m k = Some 1 \<and>
           (\<forall>r' c'. in_bounds r' c' \<and> (m < r' \<or> r' = m \<and> k < c') \<longrightarrow>
              is_cross grid r' c' \<noteq> Some 1) \<and>
           s' = \<lparr>current_r = Val m, current_c = k, found = 1\<rparr>"
        using mn(2-5) by (intro exI [of _ m] exI [of _ n]) simp
      then show ?thesis using res by simp
    qed
  qed
qed

text \<open>The whole scan: no cross and the initial locals, or the last cross.\<close>

lemma find_crosses_scan:
  assumes "grid_ok grid"
  shows "(\<forall>r c. in_bounds r c \<longrightarrow> is_cross grid r c \<noteq> Some 1) \<and>
           find_crosses grid = Some [Indet, Val 0, Val 0] \<or>
         (\<exists>m n. in_bounds m n \<and> is_cross grid m n = Some 1 \<and>
            (\<forall>r c. in_bounds r c \<and> (m < r \<or> r = m \<and> n < c) \<longrightarrow> is_cross grid r c \<noteq> Some 1) \<and>
            find_crosses grid = Some [Val m, Val n, Val 1])"
proof -
  let ?init = "\<lparr>current_r = Indet, current_c = 0, found = 0\<rparr>"
  from find_crosses_rows_scan [OF assms, of 0 ?init]
  obtain s' where s': "find_crosses_rows grid 0 ?init = Some s'"
    and d: "(\<forall>r c. 0 \<le> r \<and> in_bounds r c \<longrightarrow> is_cross grid r c \<noteq> Some 1) \<and> s' = ?init \<or>
      (\<exists>m n. 0 \<le> m \<and> in_bounds m n \<and> is_cross grid m n = Some 1 \<and>
           (\<forall>r c. in_bounds r c \<and> (m < r \<or> r = m \<and> n < c) \<longrightarrow> is_cross grid r c \<noteq> Some 1) \<and>
           s' = \<lparr>current_r = Val m, current_c = n, found = 1\<rparr>)"
    by auto
  from d show ?thesis
  proof
    assume a: "(\<forall>r c. 0 \<le> r \<and> in_bounds r c \<longrightarrow> is_cross grid r c \<noteq> Some 1) \<and> s' = ?init"
    then have "\<forall>r c. in_bounds r c \<longrightarrow> is_cross grid r c \<noteq> Some 1"
      by (simp add: in_bounds_def)
    moreover have "find_crosses grid = Some [Indet, Val 0, Val 0]"
      using s' a by (simp add: find_crosses_def)
    ultimately show ?thesis by simp
  next
    assume "\<exists>m n. 0 \<le> m \<and> in_bounds m n \<and> is_cross grid m n = Some 1 \<and>
           (\<forall>r c. in_bounds r c \<and> (m < r \<or> r = m \<and> n < c) \<longrightarrow> is_cross grid r c \<noteq> Some 1) \<and>
           s' = \<lparr>current_r = Val m, current_c = n, found = 1\<rparr>"
    then obtain m n where mn: "in_bounds m n" "is_cross grid m n = Some 1"
        "\<forall>r c. in_bounds r c \<and> (m < r \<or> r = m \<and> n < c) \<longrightarrow> is_cross grid r c \<noteq> Some 1"
        "s' = \<lparr>current_r = Val m, current_c = n, found = 1\<rparr>"
      by blast
    have "find_crosses grid = Some [Val m, Val n, Val 1]"
      using s' mn(4) by (simp add: find_crosses_def)
    then have "\<exists>m n. in_bounds m n \<and> is_cross grid m n = Some 1 \<and>
            (\<forall>r c. in_bounds r c \<and> (m < r \<or> r = m \<and> n < c) \<longrightarrow> is_cross grid r c \<noteq> Some 1) \<and>
            find_crosses grid = Some [Val m, Val n, Val 1]"
      using mn(1-3) by (intro exI [of _ m] exI [of _ n]) simp
    then show ?thesis by simp
  qed
qed

lemma find_crosses_last:
  assumes "grid_ok grid"
    and "in_bounds r c" "is_cross grid r c = Some 1"
    and "\<forall>r' c'. in_bounds r' c' \<and> (r < r' \<or> r' = r \<and> c < c') \<longrightarrow> is_cross grid r' c' \<noteq> Some 1"
  shows "find_crosses grid = Some [Val r, Val c, Val 1]"
proof -
  from find_crosses_scan [OF assms(1)] assms(2,3)
  obtain m n where mn: "in_bounds m n" "is_cross grid m n = Some 1"
      "\<forall>r c. in_bounds r c \<and> (m < r \<or> r = m \<and> n < c) \<longrightarrow> is_cross grid r c \<noteq> Some 1"
      "find_crosses grid = Some [Val m, Val n, Val 1]"
    by blast
  have "\<not> (m < r \<or> r = m \<and> n < c)"
    using mn(3) assms(2,3) by blast
  moreover have "\<not> (r < m \<or> m = r \<and> c < n)"
    using assms(4) mn(1,2) by blast
  ultimately have "m = r \<and> n = c" by arith
  then show ?thesis using mn(4) by simp
qed

section \<open>The scan as a fold over the cells in row-major order\<close>

lemma find_crosses_cols_fold:
  assumes "grid_ok grid" "0 \<le> r" "r < ROWS" "0 \<le> c"
  shows "find_crosses_cols grid r c s =
           Some (foldl (scan_step grid) s (map (Pair r) [c..COLS - 1]))"
  using assms
proof (induction grid r c s rule: find_crosses_cols.induct)
  case (1 grid r c s)
  show ?case
  proof (cases "c < COLS")
    case False
    then show ?thesis
      by (simp add: find_crosses_cols.simps [of grid r c s])
  next
    case True
    have inb: "in_bounds r c"
      using True "1.prems" by (simp add: in_bounds_def)
    have cells: "[c..COLS - 1] = c # [c + 1..COLS - 1]"
      using True by (simp add: upto_rec1)
    have later: "0 \<le> c + 1"
      using "1.prems" by simp
    from is_cross_01 [OF "1.prems"(1) inb] show ?thesis
    proof
      assume miss: "is_cross grid r c = Some 0"
      from "1.IH" [OF True miss "1.prems"(1,2,3) later] True miss show ?thesis
        by (simp add: find_crosses_cols.simps [of grid r c s] cells scan_step_def)
    next
      assume match: "is_cross grid r c = Some 1"
      from "1.IH" [OF True match "1.prems"(1,2,3) later] True match show ?thesis
        by (simp add: find_crosses_cols.simps [of grid r c s] cells scan_step_def)
    qed
  qed
qed

lemma find_crosses_rows_fold:
  assumes "grid_ok grid" "0 \<le> r"
  shows "find_crosses_rows grid r s =
           Some (foldl (scan_step grid) s
                  (concat (map (\<lambda>r. map (Pair r) [0..COLS - 1]) [r..ROWS - 1])))"
  using assms
proof (induction grid r s rule: find_crosses_rows.induct)
  case (1 grid r s)
  show ?case
  proof (cases "r < ROWS")
    case False
    then show ?thesis
      by (simp add: find_crosses_rows.simps [of grid r s])
  next
    case True
    have row: "find_crosses_cols grid r 0 s =
        Some (foldl (scan_step grid) s (map (Pair r) [0..COLS - 1]))"
      using find_crosses_cols_fold [OF "1.prems"(1,2) True, of 0 s] by simp
    have rows: "[r..ROWS - 1] = r # [r + 1..ROWS - 1]"
      using True by (simp add: upto_rec1)
    have next_row: "0 \<le> r + 1"
      using "1.prems" by simp
    from "1.IH" [OF True row "1.prems"(1) next_row] True row show ?thesis
      by (simp add: find_crosses_rows.simps [of grid r s] rows)
  qed
qed

lemma find_crosses_fold:
  assumes "grid_ok grid"
  shows "find_crosses grid =
           Some [current_r (scan_all grid), Val (current_c (scan_all grid)),
                 Val (found (scan_all grid))]"
  using find_crosses_rows_fold [OF assms, of 0]
  by (simp add: find_crosses_def scan_all_def row_major_cells_def)

lemma length_row_major_cells: "int (length row_major_cells) = ROWS * COLS"
  by (simp add: row_major_cells_def const_defs length_concat comp_def upto.simps)

section \<open>Bounds on the number of cell comparisons\<close>

lemma is_cross_arms_cmps_le:
  "is_cross_arms_cmps grid row col i \<le> 4 * nat (ARM + 1 - i)"
proof (induction grid row col i rule: is_cross_arms_cmps.induct)
  case (1 grid row col i)
  show ?case
  proof (cases "i \<le> ARM")
    case False
    then show ?thesis
      by (simp add: is_cross_arms_cmps.simps [of grid row col i])
  next
    case True
    then have budget: "4 * nat (ARM + 1 - i) = 4 + 4 * nat (ARM + 1 - (i + 1))"
      by (simp add: nat_diff_distrib)
    have rest: "4 + is_cross_arms_cmps grid row col (i + 1) \<le> 4 + 4 * nat (ARM + 1 - (i + 1))"
      if "\<not> row - i < 0" "grid_at grid (row - i) col = Some 1"
         "\<not> ROWS \<le> row + i" "grid_at grid (row + i) col = Some 1"
         "\<not> col - i < 0" "grid_at grid row (col - i) = Some 1"
         "\<not> COLS \<le> col + i" "grid_at grid row (col + i) = Some 1"
      using "1.IH" [OF True that(1,2) _ that(3,4) _ that(5,6) _ that(7,8)] by simp
    show ?thesis
      unfolding is_cross_arms_cmps.simps [of grid row col i] budget
      using True rest by (auto split: option.splits)
  qed
qed

lemma is_cross_cmps_le: "is_cross_cmps grid row col \<le> 1 + 4 * nat ARM"
  using is_cross_arms_cmps_le [of grid row col 1]
  by (simp add: is_cross_cmps_def split: option.splits)

lemma find_crosses_cols_cmps_le:
  "0 \<le> c \<Longrightarrow> find_crosses_cols_cmps grid r c \<le> (1 + 4 * nat ARM) * nat (COLS - c)"
proof (induction grid r c rule: find_crosses_cols_cmps.induct)
  case (1 grid r c)
  show ?case
  proof (cases "c < COLS")
    case False
    then show ?thesis
      by (simp add: find_crosses_cols_cmps.simps [of grid r c])
  next
    case True
    then have budget: "nat (COLS - c) = 1 + nat (COLS - (c + 1))"
      by simp
    have here: "is_cross_cmps grid r c \<le> 1 + 4 * nat ARM"
      by (rule is_cross_cmps_le)
    show ?thesis
    proof (cases "is_cross grid r c")
      case None
      then show ?thesis
        using True here
        by (simp add: find_crosses_cols_cmps.simps [of grid r c] budget)
    next
      case (Some b)
      from "1.IH" [OF True Some] "1.prems"
      have "find_crosses_cols_cmps grid r (c + 1) \<le> (1 + 4 * nat ARM) * nat (COLS - (c + 1))"
        by simp
      then show ?thesis
        using True Some here
        by (simp add: find_crosses_cols_cmps.simps [of grid r c] budget)
    qed
  qed
qed

lemma find_crosses_rows_cmps_le:
  "0 \<le> r \<Longrightarrow>
   find_crosses_rows_cmps grid r s \<le> (1 + 4 * nat ARM) * nat COLS * nat (ROWS - r)"
proof (induction grid r s rule: find_crosses_rows_cmps.induct)
  case (1 grid r s)
  show ?case
  proof (cases "r < ROWS")
    case False
    then show ?thesis
      by (simp add: find_crosses_rows_cmps.simps [of grid r s])
  next
    case True
    then have budget: "nat (ROWS - r) = 1 + nat (ROWS - (r + 1))"
      by simp
    have here: "find_crosses_cols_cmps grid r 0 \<le> (1 + 4 * nat ARM) * nat COLS"
      using find_crosses_cols_cmps_le [of 0 grid r] by simp
    show ?thesis
    proof (cases "find_crosses_cols grid r 0 s")
      case None
      then show ?thesis
        using True here
        by (simp add: find_crosses_rows_cmps.simps [of grid r s] budget)
    next
      case (Some s')
      from "1.IH" [OF True Some] "1.prems"
      have "find_crosses_rows_cmps grid (r + 1) s'
              \<le> (1 + 4 * nat ARM) * nat COLS * nat (ROWS - (r + 1))"
        by simp
      then show ?thesis
        using True Some here
        by (simp add: find_crosses_rows_cmps.simps [of grid r s] budget)
    qed
  qed
qed

lemma find_crosses_cmps_le:
  "find_crosses_cmps grid \<le> nat (ROWS * COLS * (1 + 4 * ARM))"
  using find_crosses_rows_cmps_le [of 0 grid "\<lparr>current_r = Indet, current_c = 0, found = 0\<rparr>"]
  by (simp add: find_crosses_cmps_def const_defs)

lemmas count_defs =
  find_crosses_cmps_def find_crosses_rows_cmps.simps find_crosses_cols_cmps.simps
  is_cross_cmps_def is_cross_arms_cmps.simps

section \<open>The claims about is_cross\<close>

text \<open>
  C1. On a grid of the declared shape and at an in-bounds centre, \<open>is_cross\<close> returns
  true (the \<open>int\<close> 1) exactly when the centre is \<open>1\<close> and, for every arm distance from
  \<open>1\<close> to \<open>ARM\<close>, the four cells at that distance are in bounds and equal to \<open>1\<close>;
  otherwise it returns false (the \<open>int\<close> 0).
\<close>

theorem is_cross_meets_spec:
  assumes "grid_ok grid" "in_bounds row col"
  shows "(is_cross grid row col = Some 1 \<longleftrightarrow> cross_spec grid row col) \<and>
         (\<not> cross_spec grid row col \<longrightarrow> is_cross grid row col = Some 0)"
  using is_cross_iff_spec [OF assms] is_cross_01 [OF assms] by auto

theorem is_cross_meets_spec_witness:
  "grid_ok plus_grid \<and> in_bounds 5 8 \<and> cross_spec plus_grid 5 8 \<and>
   is_cross plus_grid 5 8 = Some 1"
proof -
  have shape: "grid_ok plus_grid"
    by (rule grid_ok_plus_grid)
  have centre: "in_bounds 5 8"
    by (simp add: in_bounds_def const_defs)
  have spec: "cross_spec plus_grid 5 8"
    by (simp add: cross_spec_eq cell_is_1_def in_bounds_def grid_defs const_defs)
  from is_cross_meets_spec [OF shape centre] spec
  have "is_cross plus_grid 5 8 = Some 1"
    by simp
  with shape centre spec show ?thesis
    by simp
qed

text \<open>
  C6. At an in-bounds centre whose cell is not \<open>1\<close>, whatever else it is and whatever the
  neighbours are, \<open>is_cross\<close> returns false: the test is equality with \<open>1\<close>, not
  truthiness.
\<close>

theorem is_cross_centre_not_1:
  assumes "grid_ok grid" "in_bounds r c" "grid ! nat r ! nat c \<noteq> 1"
  shows "is_cross grid r c = Some 0"
  using is_cross_eq [OF assms(1,2)] grid_at_in [OF assms(1,2)] assms(3) by simp

theorem is_cross_centre_not_1_witness:
  "grid_ok two_centre_grid \<and> in_bounds 5 8 \<and> two_centre_grid ! nat 5 ! nat 8 = 2 \<and>
   two_centre_grid ! nat 4 ! nat 8 = 1 \<and> two_centre_grid ! nat 6 ! nat 8 = 1 \<and>
   two_centre_grid ! nat 5 ! nat 7 = 1 \<and> two_centre_grid ! nat 5 ! nat 9 = 1 \<and>
   is_cross two_centre_grid 5 8 = Some 0"
proof -
  have shape: "grid_ok two_centre_grid"
    by (rule grid_ok_two_centre_grid)
  have centre: "in_bounds 5 8"
    by (simp add: in_bounds_def const_defs)
  have cells: "two_centre_grid ! nat 5 ! nat 8 = 2 \<and>
      two_centre_grid ! nat 4 ! nat 8 = 1 \<and> two_centre_grid ! nat 6 ! nat 8 = 1 \<and>
      two_centre_grid ! nat 5 ! nat 7 = 1 \<and> two_centre_grid ! nat 5 ! nat 9 = 1"
    by (simp add: grid_defs)
  then have "two_centre_grid ! nat 5 ! nat 8 \<noteq> 1"
    by simp
  from is_cross_centre_not_1 [OF shape centre this] shape centre cells show ?thesis
    by simp
qed

text \<open>
  C9. At an in-bounds centre the \<open>int\<close> that \<open>is_cross\<close> returns is \<open>0\<close> or \<open>1\<close> and
  nothing else.
\<close>

theorem is_cross_returns_0_or_1:
  assumes "grid_ok grid" "in_bounds row col"
  shows "is_cross grid row col = Some 0 \<or> is_cross grid row col = Some 1"
  using is_cross_eq [OF assms] by (simp split: if_splits)

theorem is_cross_returns_0_or_1_witness:
  "grid_ok plus_grid \<and> in_bounds 4 8 \<and>
   (is_cross plus_grid 4 8 = Some 0 \<or> is_cross plus_grid 4 8 = Some 1)"
proof -
  have shape: "grid_ok plus_grid"
    by (rule grid_ok_plus_grid)
  have centre: "in_bounds 4 8"
    by (simp add: in_bounds_def const_defs)
  from is_cross_returns_0_or_1 [OF shape centre] shape centre show ?thesis
    by simp
qed

text \<open>
  C5. At an in-bounds centre \<open>is_cross\<close> reads no cell outside the grid (it returns a
  value), and when a neighbour at some arm distance from \<open>1\<close> to \<open>ARM\<close> falls outside
  \<open>[0, ROWS) \<times> [0, COLS)\<close> it returns false, whatever the cells hold. For the grid that
  is zero except \<open>grid[0][0] = 1\<close>, \<open>is_cross\<close> at \<open>(0, 0)\<close> is false and \<open>find_crosses\<close>
  returns the flag \<open>0\<close>.
\<close>

theorem is_cross_at_boundary:
  "(\<forall>grid row col. grid_ok grid \<and> in_bounds row col \<longrightarrow>
      is_cross grid row col \<noteq> None \<and>
      ((\<exists>i \<in> {1..ARM}. \<not> in_bounds (row - i) col \<or> \<not> in_bounds (row + i) col \<or>
                       \<not> in_bounds row (col - i) \<or> \<not> in_bounds row (col + i)) \<longrightarrow>
       is_cross grid row col = Some 0)) \<and>
   is_cross corner_grid 0 0 = Some 0 \<and>
   find_crosses corner_grid = Some [Indet, Val 0, Val 0]"
proof (intro conjI allI impI)
  fix grid row col
  assume a: "grid_ok grid \<and> in_bounds row col"
  then show "is_cross grid row col \<noteq> None"
    using is_cross_eq [of grid row col] by simp
next
  fix grid row col
  assume a: "grid_ok grid \<and> in_bounds row col"
    and "\<exists>i \<in> {1..ARM}. \<not> in_bounds (row - i) col \<or> \<not> in_bounds (row + i) col \<or>
                       \<not> in_bounds row (col - i) \<or> \<not> in_bounds row (col + i)"
  then have "\<not> in_bounds (row - 1) col \<or> \<not> in_bounds (row + 1) col \<or>
             \<not> in_bounds row (col - 1) \<or> \<not> in_bounds row (col + 1)"
    by (simp add: ARM_def)
  then have "grid_at grid (row - 1) col = None \<or> grid_at grid (row + 1) col = None \<or>
             grid_at grid row (col - 1) = None \<or> grid_at grid row (col + 1) = None"
    using a by (auto dest: grid_at_out)
  then show "is_cross grid row col = Some 0"
    using a is_cross_eq [of grid row col] by auto
next
  show "is_cross corner_grid 0 0 = Some 0"
    by (simp add: run_defs grid_defs)
next
  show "find_crosses corner_grid = Some [Indet, Val 0, Val 0]"
    by (simp add: run_defs grid_defs)
qed

theorem is_cross_at_boundary_witness:
  "grid_ok ones_grid \<and> in_bounds 0 7 \<and>
   (\<exists>i \<in> {1..ARM}. \<not> in_bounds (0 - i) 7 \<or> \<not> in_bounds (0 + i) 7 \<or>
                    \<not> in_bounds 0 (7 - i) \<or> \<not> in_bounds 0 (7 + i)) \<and>
   is_cross ones_grid 0 7 \<noteq> None \<and> is_cross ones_grid 0 7 = Some 0"
proof -
  have shape: "grid_ok ones_grid"
    by (rule grid_ok_ones_grid)
  have centre: "in_bounds 0 7"
    by (simp add: in_bounds_def const_defs)
  have outside: "\<exists>i \<in> {1..ARM}. \<not> in_bounds (0 - i) 7 \<or> \<not> in_bounds (0 + i) 7 \<or>
                    \<not> in_bounds 0 (7 - i) \<or> \<not> in_bounds 0 (7 + i)"
    by (simp add: in_bounds_def const_defs)
  from is_cross_at_boundary
  have "is_cross ones_grid 0 7 \<noteq> None \<and>
      ((\<exists>i \<in> {1..ARM}. \<not> in_bounds (0 - i) 7 \<or> \<not> in_bounds (0 + i) 7 \<or>
                    \<not> in_bounds 0 (7 - i) \<or> \<not> in_bounds 0 (7 + i)) \<longrightarrow>
       is_cross ones_grid 0 7 = Some 0)"
    using shape centre by blast
  with shape centre outside show ?thesis
    by blast
qed

section \<open>The claims about find_crosses\<close>

text \<open>
  C3. When no cell of the grid is a cross, \<open>find_crosses\<close> returns the flag \<open>0\<close> with the
  coordinates as they were before the scan: the column is the \<open>0\<close> that \<open>current_c\<close>
  was initialised with, and the row is \<open>current_r\<close>, which has no initialiser and was
  never assigned.
\<close>

theorem find_crosses_no_cross:
  assumes "grid_ok grid"
    and "\<forall>r c. in_bounds r c \<longrightarrow> is_cross grid r c \<noteq> Some 1"
  shows "find_crosses grid = Some [Indet, Val 0, Val 0]"
  using find_crosses_scan [OF assms(1)] assms(2) by blast

theorem find_crosses_no_cross_witness:
  "grid_ok zero_grid \<and> \<not> (\<exists>r c. in_bounds r c \<and> is_cross zero_grid r c = Some 1) \<and>
   find_crosses zero_grid = Some [Indet, Val 0, Val 0]"
proof -
  have shape: "grid_ok zero_grid"
    by (rule grid_ok_zero_grid)
  have none: "\<forall>r c. in_bounds r c \<longrightarrow> is_cross zero_grid r c \<noteq> Some 1"
    using zero_grid_no_cross by blast
  from find_crosses_no_cross [OF shape none] shape none show ?thesis
    by blast
qed

text \<open>
  C4. On every grid \<open>find_crosses\<close> returns three values of which the third, the
  found-flag, is \<open>0\<close> or \<open>1\<close>; it is \<open>1\<close> exactly when some in-bounds cell is a cross; and
  it is \<open>0\<close> when every cell of the grid is \<open>0\<close>.
\<close>

theorem find_crosses_flag:
  assumes "grid_ok grid"
  shows "\<exists>row col fnd. find_crosses grid = Some [row, col, Val fnd] \<and>
           (fnd = 0 \<or> fnd = 1) \<and>
           (fnd = 1 \<longleftrightarrow> (\<exists>r c. in_bounds r c \<and> is_cross grid r c = Some 1)) \<and>
           ((\<forall>r c. in_bounds r c \<longrightarrow> grid ! nat r ! nat c = 0) \<longrightarrow> fnd = 0)"
proof -
  have zero: "is_cross grid r c \<noteq> Some 1"
    if "in_bounds r c" "\<forall>r c. in_bounds r c \<longrightarrow> grid ! nat r ! nat c = 0" for r c
    using is_cross_eq [OF assms that(1)] grid_at_in [OF assms that(1)] that by simp
  from find_crosses_scan [OF assms] show ?thesis
  proof
    assume a: "(\<forall>r c. in_bounds r c \<longrightarrow> is_cross grid r c \<noteq> Some 1) \<and>
           find_crosses grid = Some [Indet, Val 0, Val 0]"
    show ?thesis
      by (intro exI [of _ Indet] exI [of _ "Val 0"] exI [of _ 0]) (use a in simp)
  next
    assume "\<exists>m n. in_bounds m n \<and> is_cross grid m n = Some 1 \<and>
            (\<forall>r c. in_bounds r c \<and> (m < r \<or> r = m \<and> n < c) \<longrightarrow> is_cross grid r c \<noteq> Some 1) \<and>
            find_crosses grid = Some [Val m, Val n, Val 1]"
    then obtain m n where mn: "in_bounds m n" "is_cross grid m n = Some 1"
        "find_crosses grid = Some [Val m, Val n, Val 1]"
      by blast
    have some: "\<exists>r c. in_bounds r c \<and> is_cross grid r c = Some 1"
      using mn(1,2) by blast
    have "\<not> (\<forall>r c. in_bounds r c \<longrightarrow> grid ! nat r ! nat c = 0)"
      using zero [OF mn(1)] mn(2) by blast
    then show ?thesis
      using mn(3) some
      by (intro exI [of _ "Val m"] exI [of _ "Val n"] exI [of _ 1]) simp
  qed
qed

theorem find_crosses_flag_witness:
  "grid_ok zero_grid \<and> \<not> (\<exists>r c. in_bounds r c \<and> zero_grid ! nat r ! nat c \<noteq> 0) \<and>
   (\<exists>row col. find_crosses zero_grid = Some [row, col, Val 0])"
proof -
  have shape: "grid_ok zero_grid"
    by (rule grid_ok_zero_grid)
  have zeros: "\<forall>r c. in_bounds r c \<longrightarrow> zero_grid ! nat r ! nat c = 0"
    by (simp add: nth_zero_grid)
  from find_crosses_flag [OF shape]
  obtain row col fnd where run: "find_crosses zero_grid = Some [row, col, Val fnd]"
    and flag: "(\<forall>r c. in_bounds r c \<longrightarrow> zero_grid ! nat r ! nat c = 0) \<longrightarrow> fnd = 0"
    by blast
  from flag zeros have "fnd = 0" ..
  with run have "\<exists>row col. find_crosses zero_grid = Some [row, col, Val 0]"
    by simp
  with shape zeros show ?thesis
    by blast
qed

text \<open>
  C10. When the found-flag that \<open>find_crosses\<close> returns is \<open>1\<close>, the returned row and
  column are values inside \<open>[0, ROWS) \<times> [0, COLS)\<close> and \<open>is_cross\<close> returns \<open>1\<close> there.
\<close>

theorem find_crosses_found_is_cross:
  assumes "grid_ok grid"
    and "find_crosses grid = Some res" "res ! 2 = Val 1"
  shows "\<exists>r c. res ! 0 = Val r \<and> res ! 1 = Val c \<and> in_bounds r c \<and>
           is_cross grid r c = Some 1"
  using find_crosses_scan [OF assms(1)] assms(2,3) by auto

theorem find_crosses_found_is_cross_witness:
  "grid_ok plus_grid \<and> find_crosses plus_grid = Some [Val 5, Val 8, Val 1] \<and>
   [Val 5, Val 8, Val 1] ! 2 = Val 1 \<and> in_bounds 5 8 \<and> is_cross plus_grid 5 8 = Some 1"
proof -
  have shape: "grid_ok plus_grid"
    by (rule grid_ok_plus_grid)
  have run: "find_crosses plus_grid = Some [Val 5, Val 8, Val 1]"
    by (simp add: run_defs grid_defs)
  have flag: "[Val 5, Val 8, Val 1] ! 2 = Val 1"
    by simp
  from find_crosses_found_is_cross [OF shape run flag]
  have "in_bounds 5 8 \<and> is_cross plus_grid 5 8 = Some 1"
    by simp
  with shape run flag show ?thesis
    by simp
qed

text \<open>
  C2. On a grid with at least one cross, \<open>find_crosses\<close> is the scan of all
  \<open>ROWS \<times> COLS\<close> cells in row-major order, every match overwriting the one before, and
  it returns the flag \<open>1\<close> with the coordinates of the last cross in that order: every
  cross of the grid has a smaller row, or the same row and a column that is not greater.
\<close>

theorem find_crosses_last_match:
  assumes "grid_ok grid"
    and "\<exists>r c. in_bounds r c \<and> is_cross grid r c = Some 1"
  shows "find_crosses grid =
           Some [current_r (scan_all grid), Val (current_c (scan_all grid)),
                 Val (found (scan_all grid))] \<and>
         int (length row_major_cells) = ROWS * COLS \<and>
         (\<exists>r c. find_crosses grid = Some [Val r, Val c, Val 1] \<and>
            in_bounds r c \<and> is_cross grid r c = Some 1 \<and>
            (\<forall>r' c'. in_bounds r' c' \<and> is_cross grid r' c' = Some 1 \<longrightarrow>
               r' < r \<or> r' = r \<and> c' \<le> c))"
proof -
  from find_crosses_scan [OF assms(1)] assms(2)
  obtain m n where mn: "in_bounds m n" "is_cross grid m n = Some 1"
      "\<forall>r c. in_bounds r c \<and> (m < r \<or> r = m \<and> n < c) \<longrightarrow> is_cross grid r c \<noteq> Some 1"
      "find_crosses grid = Some [Val m, Val n, Val 1]"
    by blast
  have "r' < m \<or> r' = m \<and> c' \<le> n"
    if "in_bounds r' c' \<and> is_cross grid r' c' = Some 1" for r' c'
  proof (rule ccontr)
    assume "\<not> (r' < m \<or> r' = m \<and> c' \<le> n)"
    then have "m < r' \<or> r' = m \<and> n < c'"
      by arith
    then show False
      using mn(3) that by blast
  qed
  then have "\<exists>r c. find_crosses grid = Some [Val r, Val c, Val 1] \<and>
            in_bounds r c \<and> is_cross grid r c = Some 1 \<and>
            (\<forall>r' c'. in_bounds r' c' \<and> is_cross grid r' c' = Some 1 \<longrightarrow>
               r' < r \<or> r' = r \<and> c' \<le> c)"
    using mn(1,2,4) by (intro exI [of _ m] exI [of _ n]) simp
  then show ?thesis
    using find_crosses_fold [OF assms(1)] length_row_major_cells by simp
qed

theorem find_crosses_last_match_witness:
  "grid_ok two_plus_grid \<and>
   in_bounds 2 3 \<and> is_cross two_plus_grid 2 3 = Some 1 \<and>
   in_bounds 5 8 \<and> is_cross two_plus_grid 5 8 = Some 1 \<and>
   find_crosses two_plus_grid = Some [Val 5, Val 8, Val 1] \<and>
   \<not> (\<exists>r' c'. in_bounds r' c' \<and> is_cross two_plus_grid r' c' = Some 1 \<and>
          \<not> (r' < 5 \<or> r' = 5 \<and> c' \<le> 8))"
proof -
  have shape: "grid_ok two_plus_grid"
    by (rule grid_ok_two_plus_grid)
  have first: "in_bounds 2 3 \<and> is_cross two_plus_grid 2 3 = Some 1"
    by (simp add: in_bounds_def run_defs grid_defs)
  have second: "in_bounds 5 8 \<and> is_cross two_plus_grid 5 8 = Some 1"
    by (simp add: in_bounds_def run_defs grid_defs)
  have run: "find_crosses two_plus_grid = Some [Val 5, Val 8, Val 1]"
    by (simp add: run_defs grid_defs)
  from first have some: "\<exists>r c. in_bounds r c \<and> is_cross two_plus_grid r c = Some 1"
    by blast
  from find_crosses_last_match [OF shape some]
  obtain r c where rc: "find_crosses two_plus_grid = Some [Val r, Val c, Val 1]"
    and last: "\<forall>r' c'. in_bounds r' c' \<and> is_cross two_plus_grid r' c' = Some 1 \<longrightarrow>
               r' < r \<or> r' = r \<and> c' \<le> c"
    by blast
  from rc run have "r = 5" "c = 8"
    by simp_all
  with last have "\<not> (\<exists>r' c'. in_bounds r' c' \<and> is_cross two_plus_grid r' c' = Some 1 \<and>
          \<not> (r' < 5 \<or> r' = 5 \<and> c' \<le> 8))"
    by blast
  with shape first second run show ?thesis
    by simp
qed

text \<open>
  C7. When \<open>is_cross\<close> holds at exactly one cell \<open>(r, c)\<close> of the grid, \<open>find_crosses\<close>
  returns \<open>(r, c, 1)\<close>. For the grid that is zero except at \<open>(5, 8)\<close>, \<open>(4, 8)\<close>,
  \<open>(6, 8)\<close>, \<open>(5, 7)\<close> and \<open>(5, 9)\<close>, \<open>is_cross\<close> holds at \<open>(5, 8)\<close> and \<open>find_crosses\<close>
  returns \<open>(5, 8, 1)\<close>.
\<close>

theorem find_crosses_single_cross:
  "(\<forall>grid r c.
      grid_ok grid \<and> in_bounds r c \<and> is_cross grid r c = Some 1 \<and>
      (\<forall>r' c'. in_bounds r' c' \<and> is_cross grid r' c' = Some 1 \<longrightarrow> r' = r \<and> c' = c) \<longrightarrow>
      find_crosses grid = Some [Val r, Val c, Val 1]) \<and>
   is_cross plus_grid 5 8 = Some 1 \<and>
   find_crosses plus_grid = Some [Val 5, Val 8, Val 1]"
proof (intro conjI allI impI)
  fix grid r c
  assume a: "grid_ok grid \<and> in_bounds r c \<and> is_cross grid r c = Some 1 \<and>
      (\<forall>r' c'. in_bounds r' c' \<and> is_cross grid r' c' = Some 1 \<longrightarrow> r' = r \<and> c' = c)"
  then have shape: "grid_ok grid" and centre: "in_bounds r c"
    and hit: "is_cross grid r c = Some 1"
    and only: "\<forall>r' c'. in_bounds r' c' \<and> is_cross grid r' c' = Some 1 \<longrightarrow> r' = r \<and> c' = c"
    by blast+
  have later: "\<forall>r' c'. in_bounds r' c' \<and> (r < r' \<or> r' = r \<and> c < c') \<longrightarrow>
      is_cross grid r' c' \<noteq> Some 1"
  proof (intro allI impI notI)
    fix r' c'
    assume "in_bounds r' c' \<and> (r < r' \<or> r' = r \<and> c < c')"
      and "is_cross grid r' c' = Some 1"
    then have "r' = r \<and> c' = c" "r < r' \<or> r' = r \<and> c < c'"
      using only by blast+
    then show False
      by arith
  qed
  show "find_crosses grid = Some [Val r, Val c, Val 1]"
    by (rule find_crosses_last [OF shape centre hit later])
next
  show "is_cross plus_grid 5 8 = Some 1"
    by (simp add: run_defs grid_defs)
next
  show "find_crosses plus_grid = Some [Val 5, Val 8, Val 1]"
    by (simp add: run_defs grid_defs)
qed

theorem find_crosses_single_cross_witness:
  "grid_ok plus_grid \<and> in_bounds 5 8 \<and> is_cross plus_grid 5 8 = Some 1 \<and>
   \<not> (\<exists>r' c'. in_bounds r' c' \<and> is_cross plus_grid r' c' = Some 1 \<and> (r', c') \<noteq> (5, 8)) \<and>
   find_crosses plus_grid = Some [Val 5, Val 8, Val 1]"
proof -
  have shape: "grid_ok plus_grid"
    by (rule grid_ok_plus_grid)
  have centre: "in_bounds 5 8"
    by (simp add: in_bounds_def const_defs)
  have hit: "is_cross plus_grid 5 8 = Some 1"
    by (simp add: run_defs grid_defs)
  have only: "\<forall>r' c'. in_bounds r' c' \<and> is_cross plus_grid r' c' = Some 1 \<longrightarrow> r' = 5 \<and> c' = 8"
    using plus_grid_only_cross by blast
  then have no_other:
    "\<not> (\<exists>r' c'. in_bounds r' c' \<and> is_cross plus_grid r' c' = Some 1 \<and> (r', c') \<noteq> (5, 8))"
    by simp
  have hyps: "grid_ok plus_grid \<and> in_bounds 5 8 \<and> is_cross plus_grid 5 8 = Some 1 \<and>
      (\<forall>r' c'. in_bounds r' c' \<and> is_cross plus_grid r' c' = Some 1 \<longrightarrow> r' = 5 \<and> c' = 8)"
    using shape centre hit only by (intro conjI)
  from find_crosses_single_cross [THEN conjunct1, rule_format, of plus_grid 5 8, OF hyps]
  show ?thesis
    using shape centre hit no_other by (intro conjI)
qed

text \<open>
  C8, as stated. The claim bounds the scan by \<open>ROWS \<times> COLS \<times> 4 \<times> ARM = 768\<close> primitive
  comparisons. The bound leaves out the comparison of the centre: on the grid full of
  ones the scan compares a cell with \<open>1\<close> 818 times, before any bound test or loop
  condition is counted.
\<close>

theorem find_crosses_cmps_exceed_stated_bound:
  "grid_ok ones_grid \<and> find_crosses_cmps ones_grid = 818 \<and>
   \<not> find_crosses_cmps ones_grid \<le> nat (ROWS * COLS * 4 * ARM)"
proof -
  have count: "find_crosses_cmps ones_grid = 818"
    by (simp add: count_defs run_defs grid_defs)
  then have "\<not> find_crosses_cmps ones_grid \<le> nat (ROWS * COLS * 4 * ARM)"
    by (simp add: const_defs)
  with count grid_ok_ones_grid show ?thesis
    by simp
qed

text \<open>
  C8, amended. On every grid \<open>find_crosses\<close> terminates: the two loops are bounded, the
  embedded function returns a result and reads no cell outside the grid, and the scan
  compares a cell with \<open>1\<close> at most \<open>ROWS \<times> COLS \<times> (1 + 4 \<times> ARM)\<close> times, once for the
  centre and at most \<open>4 \<times> ARM\<close> times for the neighbours of each cell.
\<close>

theorem find_crosses_terminates:
  assumes "grid_ok grid"
  shows "(\<exists>res. find_crosses grid = Some res) \<and>
         find_crosses_cmps grid \<le> nat (ROWS * COLS * (1 + 4 * ARM))"
  using find_crosses_scan [OF assms] find_crosses_cmps_le [of grid] by auto

theorem find_crosses_terminates_witness:
  "grid_ok two_centre_grid \<and> (\<exists>res. find_crosses two_centre_grid = Some res) \<and>
   find_crosses_cmps two_centre_grid \<le> nat (ROWS * COLS * (1 + 4 * ARM))"
  using find_crosses_terminates [OF grid_ok_two_centre_grid] grid_ok_two_centre_grid
  by simp

end
